theory Spec2Isabelle
  imports Main "HOL-Library.Sublist" "HOL-Library.Multiset"
begin

section \<open>Strings\<close>

text \<open>
  Strings are lists of characters, the code units U+0000 to U+00FF. On these
  \<open>String.prototype.toLowerCase\<close> works character by character: the capitals \<open>A\<close> to
  \<open>Z\<close> (65 to 90) and the capitals U+00C0 to U+00DE (192 to 222) other than the
  multiplication sign U+00D7 (215) go to the character 32 places further, every other
  character is kept.
\<close>

definition lowerChar :: "char \<Rightarrow> char" where
  "lowerChar c =
     (let n = (of_char c :: nat)
      in if ((65::nat) \<le> n \<and> n \<le> 90) \<or> ((192::nat) \<le> n \<and> n \<le> 222 \<and> n \<noteq> 215)
         then char_of (n + 32) else c)"

definition toLowerCase :: "string \<Rightarrow> string" where
  "toLowerCase s = map lowerChar s"

text \<open>\<open>s.startsWith(k)\<close> and \<open>s.includes(k)\<close>, by recursion on the characters.\<close>

fun startsWith :: "string \<Rightarrow> string \<Rightarrow> bool" where
  "startsWith s [] = True"
| "startsWith [] (k # ks) = False"
| "startsWith (c # cs) (k # ks) = (c = k \<and> startsWith cs ks)"

fun includes' :: "string \<Rightarrow> string \<Rightarrow> bool" where
  "includes' [] k = (k = [])"
| "includes' (c # cs) k = (startsWith (c # cs) k \<or> includes' cs k)"

section \<open>Entries\<close>

text \<open>
  The interface \<open>ListItem\<close>, declared alike in the search and the management component,
  is the four fields of the management form (\<open>formData\<close>) and an \<open>id\<close>.
\<close>

record FormData =
  title :: string
  subtitle :: string
  trigger :: string
  data :: string

record ListItem = FormData +
  id' :: string

section \<open>The search component: matching and ranking\<close>

text \<open>
  \<open>Array.prototype.sort\<close> with a comparator is a stable sort. With a comparator that is
  consistent (as the one below is) the result of a stable sort is determined, and is
  computed here by insertion from the right: an element goes in front of the first element
  it does not compare greater than.
\<close>

fun insertBy :: "('a \<Rightarrow> 'a \<Rightarrow> int) \<Rightarrow> 'a \<Rightarrow> 'a list \<Rightarrow> 'a list" where
  "insertBy cmp x [] = [x]"
| "insertBy cmp x (y # ys) = (if cmp x y \<le> 0 then x # y # ys else y # insertBy cmp x ys)"

definition array_sort :: "('a \<Rightarrow> 'a \<Rightarrow> int) \<Rightarrow> 'a list \<Rightarrow> 'a list" where
  "array_sort cmp xs = foldr (insertBy cmp) xs []"

text \<open>The comparator handed to \<open>sort\<close> in \<open>matchedItems\<close>; \<open>keyword\<close> is already lower case.\<close>

definition compareItems :: "string \<Rightarrow> ListItem \<Rightarrow> ListItem \<Rightarrow> int" where
  "compareItems keyword a b =
     (let aExactMatch = (toLowerCase (trigger a) = keyword);
          bExactMatch = (toLowerCase (trigger b) = keyword)
      in if aExactMatch \<and> \<not> bExactMatch then - 1
         else if \<not> aExactMatch \<and> bExactMatch then 1
         else
           (let aStartsWith = startsWith (toLowerCase (trigger a)) keyword;
                bStartsWith = startsWith (toLowerCase (trigger b)) keyword
            in if aStartsWith \<and> \<not> bStartsWith then - 1
               else if \<not> aStartsWith \<and> bStartsWith then 1
               else 0))"

definition matchesKeyword :: "string \<Rightarrow> ListItem \<Rightarrow> bool" where
  "matchesKeyword keyword item =
     (let trigger = toLowerCase (trigger item);
          title = toLowerCase (title item);
          subtitle = toLowerCase (subtitle item)
      in includes' trigger keyword \<or> includes' title keyword \<or> includes' subtitle keyword)"

definition matchedItems :: "ListItem list \<Rightarrow> string \<Rightarrow> ListItem list" where
  "matchedItems listItems searchKeyword =
     (if searchKeyword = [] then []
      else
        (let keyword = toLowerCase searchKeyword
         in array_sort (compareItems keyword) (filter (matchesKeyword keyword) listItems)))"

section \<open>The search component: selection, commit, mount and unmount\<close>

text \<open>
  The text stored under \<open>list-manager-data\<close>, as \<open>JSON.parse\<close> reads it: nothing stored
  (\<open>getItem\<close> gives \<open>null\<close>, or the empty text), a text that is not JSON, or the text
  \<open>saveData\<close> wrote for a collection.
\<close>

datatype stored = Absent | Unparseable | Collection "ListItem list"

datatype error = SyntaxError | TypeError

datatype host_call = CopyText string | HideMainWindow | OutPlugin

datatype key = ArrowDown | ArrowUp | Enter | Escape | OtherKey

text \<open>The activation the host delivers; a missing \<open>payload\<close> is the empty text (both are falsy).\<close>

record action =
  code :: string
  payload :: string

text \<open>Both components hold \<open>listItems\<close> and \<open>searchKeyword\<close>.\<close>

record view =
  listItems :: "ListItem list"
  searchKeyword :: string

text \<open>
  The search component with the part of its environment it acts on: whether its
  \<open>keydown\<close> listener is registered, the delays of the pending \<open>setTimeout\<close> callbacks
  (the only callback ever scheduled is \<open>copySelectedItem\<close>), and the calls made to the host.
\<close>

record search = view +
  selectedIndex :: int
  keydownListener :: bool
  timeouts :: "nat list"
  calls :: "host_call list"

definition created :: search where
  "created = \<lparr>listItems = [], searchKeyword = [], selectedIndex = 0,
            keydownListener = False, timeouts = [], calls = []\<rparr>"

definition loadData :: "stored \<Rightarrow> ListItem list \<Rightarrow> error + ListItem list" where
  "loadData saved current =
     (case saved of
        Absent \<Rightarrow> Inr current
      | Unparseable \<Rightarrow> Inl SyntaxError
      | Collection xs \<Rightarrow> Inr xs)"

text \<open>
  \<open>copySelectedItem\<close>: reading the array at a negative index gives \<open>undefined\<close>, and
  \<open>undefined.data\<close> throws.
\<close>

definition copySelectedItem :: "search \<Rightarrow> error + search" where
  "copySelectedItem s =
     (let m = matchedItems (listItems s) (searchKeyword s)
      in if 0 < length m \<and> selectedIndex s < int (length m)
         then (if selectedIndex s < 0 then Inl TypeError
               else
                 (let selectedItem = m ! nat (selectedIndex s)
                  in Inr (s\<lparr>calls := calls s @ [CopyText (data selectedItem), HideMainWindow, OutPlugin]\<rparr>)))
         else Inr s)"

definition handleKeydown :: "key \<Rightarrow> search \<Rightarrow> error + search" where
  "handleKeydown k s =
     (case k of
        ArrowDown \<Rightarrow>
          Inr (if selectedIndex s < int (length (matchedItems (listItems s) (searchKeyword s))) - 1
               then s\<lparr>selectedIndex := selectedIndex s + 1\<rparr> else s)
      | ArrowUp \<Rightarrow>
          Inr (if 0 < selectedIndex s then s\<lparr>selectedIndex := selectedIndex s - 1\<rparr> else s)
      | Enter \<Rightarrow> copySelectedItem s
      | Escape \<Rightarrow> Inr (s\<lparr>calls := calls s @ [OutPlugin]\<rparr>)
      | OtherKey \<Rightarrow> Inr s)"

definition onMounted :: "stored \<Rightarrow> action \<Rightarrow> search \<Rightarrow> error + search" where
  "onMounted saved enterAction s =
     (case loadData saved (listItems s) of
        Inl e \<Rightarrow> Inl e
      | Inr items \<Rightarrow>
          (let s1 = s\<lparr>listItems := items\<rparr>;
               s2 = (if payload enterAction \<noteq> [] then s1\<lparr>searchKeyword := payload enterAction\<rparr> else s1);
               s3 = s2\<lparr>keydownListener := True\<rparr>;
               m = matchedItems (listItems s3) (searchKeyword s3)
           in Inr (if length m = 1 \<and> toLowerCase (trigger (m ! 0)) = toLowerCase (searchKeyword s3)
                   then s3\<lparr>timeouts := timeouts s3 @ [100]\<rparr> else s3)))"

definition onUnmounted :: "search \<Rightarrow> search" where
  "onUnmounted s = s\<lparr>keydownListener := False\<rparr>"

text \<open>
  What can happen to a mounted component: a key goes down (handled while the listener is
  registered), the oldest pending timer fires, the component is unmounted. An exception
  thrown by a handler ends that handler; the state stays as the handler left it.
\<close>

datatype event = Keydown key | TimerFires | Unmount

definition dispatch :: "event \<Rightarrow> search \<Rightarrow> search" where
  "dispatch ev s =
     (case ev of
        Keydown k \<Rightarrow>
          (if keydownListener s
           then (case handleKeydown k s of Inl e \<Rightarrow> s | Inr s' \<Rightarrow> s')
           else s)
      | TimerFires \<Rightarrow>
          (case timeouts s of
             [] \<Rightarrow> s
           | d # ds \<Rightarrow>
               (case copySelectedItem (s\<lparr>timeouts := ds\<rparr>) of
                  Inl e \<Rightarrow> s\<lparr>timeouts := ds\<rparr>
                | Inr s' \<Rightarrow> s'))
      | Unmount \<Rightarrow> onUnmounted s)"

definition run :: "event list \<Rightarrow> search \<Rightarrow> search" where
  "run evs s = fold dispatch evs s"

section \<open>The management component\<close>

text \<open>
  A parsed JSON file. The import never looks at the elements of an array, so an array
  holds elements of the type its destination declares, \<open>ListItem\<close>. The keys of a parsed
  object are distinct; reading a property looks the key up.
\<close>

datatype json =
  JNull | JBool bool | JNumber int | JString string
  | JArray "ListItem list" | JObject "(string \<times> json) list"

fun property :: "json \<Rightarrow> string \<Rightarrow> json option" where
  "property (JObject kvs) k = map_of kvs k"
| "property j k = None"

text \<open>The messages shown with \<open>alert\<close>, by their meaning.\<close>

datatype alert =
  RequiredFieldsEmpty | Exported nat | ExportFailed | Imported nat | WrongFormat | ImportFailed

record manager = view +
  showAddForm :: bool
  editingItem :: "ListItem option"
  formData :: FormData
  storage :: stored
  alerts :: "alert list"
  downloads :: "(string \<times> json) list"

definition emptyForm :: FormData where
  "emptyForm = \<lparr>title = [], subtitle = [], trigger = [], data = []\<rparr>"

definition saveData :: "manager \<Rightarrow> manager" where
  "saveData s = s\<lparr>storage := Collection (listItems s)\<rparr>"

definition resetForm :: "manager \<Rightarrow> manager" where
  "resetForm s = s\<lparr>formData := emptyForm, showAddForm := False, editingItem := None\<rparr>"

text \<open>\<open>Date.now().toString()\<close>: the milliseconds since the epoch, in decimal.\<close>

fun toString :: "nat \<Rightarrow> string" where
  "toString n =
     (if n < 10 then [char_of (48 + n)]
      else toString (n div 10) @ [char_of (48 + n mod 10)])"

declare toString.simps [simp del]

definition addItem :: "nat \<Rightarrow> manager \<Rightarrow> manager" where
  "addItem now s =
     (if title (formData s) = [] \<or> trigger (formData s) = []
      then s\<lparr>alerts := alerts s @ [RequiredFieldsEmpty]\<rparr>
      else
        (let newItem = \<lparr>title = title (formData s), subtitle = subtitle (formData s),
                        trigger = trigger (formData s), data = data (formData s),
                        id' = toString now\<rparr>
         in resetForm (saveData (s\<lparr>listItems := listItems s @ [newItem]\<rparr>))))"

text \<open>
  \<open>editItem\<close> spreads the entry into the form; the \<open>id\<close> that comes along is never read
  from the form, which is modelled with its four fields.
\<close>

definition editItem :: "ListItem \<Rightarrow> manager \<Rightarrow> manager" where
  "editItem item s =
     s\<lparr>editingItem := Some item,
       formData := \<lparr>title = title item, subtitle = subtitle item,
                    trigger = trigger item, data = data item\<rparr>,
       showAddForm := True\<rparr>"

text \<open>\<open>findIndex\<close>: the first position that satisfies the test; \<open>None\<close> is the source's -1.\<close>

fun findIndex :: "('a \<Rightarrow> bool) \<Rightarrow> 'a list \<Rightarrow> nat option" where
  "findIndex P [] = None"
| "findIndex P (x # xs) =
     (if P x then Some 0 else (case findIndex P xs of None \<Rightarrow> None | Some i \<Rightarrow> Some (Suc i)))"

definition updateItem :: "manager \<Rightarrow> manager" where
  "updateItem s =
     (case editingItem s of
        None \<Rightarrow> s
      | Some editing \<Rightarrow>
          (case findIndex (\<lambda>item. id' item = id' editing) (listItems s) of
             None \<Rightarrow> s
           | Some index \<Rightarrow>
               resetForm (saveData (s\<lparr>listItems := (listItems s)
                 [index := editing\<lparr>title := title (formData s), subtitle := subtitle (formData s),
                                   trigger := trigger (formData s), data := data (formData s)\<rparr>]\<rparr>))))"

text \<open>
  \<open>exportData\<close>: \<open>isoTime\<close> is the clock's \<open>toISOString()\<close>; \<open>domOk\<close> says whether the
  statements of the \<open>try\<close> block ran through. The file holds the snapshot object.
\<close>

definition snapshot :: "string \<Rightarrow> ListItem list \<Rightarrow> json" where
  "snapshot isoTime items =
     JObject [(''version'', JString ''1.0''), (''timestamp'', JString isoTime), (''data'', JArray items)]"

definition exportData :: "string \<Rightarrow> bool \<Rightarrow> manager \<Rightarrow> manager" where
  "exportData isoTime domOk s =
     (if domOk
      then s\<lparr>downloads := downloads s @
               [(''list-manager-data-'' @ takeWhile (\<lambda>c. c \<noteq> CHR ''T'') isoTime @ ''.json'',
                 snapshot isoTime (listItems s))],
             alerts := alerts s @ [Exported (length (listItems s))]\<rparr>
      else s\<lparr>alerts := alerts s @ [ExportFailed]\<rparr>)"

text \<open>
  \<open>reader.onload\<close> of \<open>importData\<close>: \<open>content\<close> is the file as \<open>JSON.parse\<close> reads it
  (\<open>None\<close> when it throws), \<open>confirmed\<close> the answer to the \<open>confirm\<close> dialog. Reading
  \<open>.data\<close> of \<open>null\<close> throws; both exceptions end in the \<open>catch\<close> block.
\<close>

definition dataToImport :: "json \<Rightarrow> ListItem list option" where
  "dataToImport importedData =
     (case property importedData ''data'' of
        Some (JArray xs) \<Rightarrow> Some xs
      | _ \<Rightarrow> (case importedData of JArray xs \<Rightarrow> Some xs | _ \<Rightarrow> None))"

definition importData :: "json option \<Rightarrow> bool \<Rightarrow> manager \<Rightarrow> manager" where
  "importData content confirmed s =
     (case content of
        None \<Rightarrow> s\<lparr>alerts := alerts s @ [ImportFailed]\<rparr>
      | Some importedData \<Rightarrow>
          (if importedData = JNull then s\<lparr>alerts := alerts s @ [ImportFailed]\<rparr>
           else
             (case dataToImport importedData of
                Some xs \<Rightarrow>
                  (if confirmed
                   then (saveData (s\<lparr>listItems := xs\<rparr>))\<lparr>alerts := alerts s @ [Imported (length xs)]\<rparr>
                   else s)
              | None \<Rightarrow> s\<lparr>alerts := alerts s @ [WrongFormat]\<rparr>)))"


section \<open>The application: the handler of \<open>onPluginEnter\<close>\<close>

text \<open>
  Of the characters up to U+00FF, those \<open>\s\<close> matches and \<open>trim\<close> removes (tab, line
  feed, vertical tab, form feed, carriage return, space and the no-break space U+00A0), and
  the line terminators that \<open>.\<close> does not match (line feed, carriage return).
\<close>

definition isSpace :: "char \<Rightarrow> bool" where
  "isSpace c = ((of_char c :: nat) \<in> {9, 10, 11, 12, 13, 32, 160})"

definition isLineTerminator :: "char \<Rightarrow> bool" where
  "isLineTerminator c = ((of_char c :: nat) \<in> {10, 13})"

definition trim :: "string \<Rightarrow> string" where
  "trim s = rev (dropWhile isSpace (rev (dropWhile isSpace s)))"

text \<open>
  \<open>payload.match(/^wj\s+(.+)$/)\<close>, giving the first group. After \<open>wj\<close> the greedy
  \<open>\s+\<close> first takes the whole run of white space and gives characters back one at a time,
  down to one, until \<open>(.+)$\<close> matches what is left: a non-empty text without line
  terminator, up to the end.
\<close>

definition dotPlusToEnd :: "string \<Rightarrow> bool" where
  "dotPlusToEnd t = (t \<noteq> [] \<and> list_all (\<lambda>c. \<not> isLineTerminator c) t)"

fun backtrack :: "nat \<Rightarrow> string \<Rightarrow> string option" where
  "backtrack 0 rest = None"
| "backtrack (Suc n) rest =
     (if dotPlusToEnd (drop (Suc n) rest) then Some (drop (Suc n) rest) else backtrack n rest)"

definition match_wj :: "string \<Rightarrow> string option" where
  "match_wj p =
     (if startsWith p ''wj''
      then backtrack (length (takeWhile isSpace (drop 2 p))) (drop 2 p)
      else None)"

record app =
  route :: string
  enterAction :: action

definition onPluginEnter :: "action \<Rightarrow> app \<Rightarrow> app" where
  "onPluginEnter act s =
     (let s1 = s\<lparr>route := code act\<rparr>;
          act' = (if code act = ''list-search'' \<and> payload act \<noteq> []
                  then (case match_wj (payload act) of
                          Some m1 \<Rightarrow> (if m1 \<noteq> [] then act\<lparr>payload := trim m1\<rparr> else act)
                        | None \<Rightarrow> act)
                  else act)
      in s1\<lparr>enterAction := act'\<rparr>)"

section \<open>The words of the specification\<close>

text \<open>
  Case-insensitivity, said without \<open>toLowerCase\<close>. A capital and its small letter lie 32
  places apart; two characters are the same letter when they are equal or one is the
  capital of the other; two texts are equal case-insensitively when they have the same
  letters in the same places. A text contains the query case-insensitively when a stretch
  of it equals the query case-insensitively, and starts with it when that stretch is at
  the beginning.
\<close>

definition capital_of :: "char \<Rightarrow> char \<Rightarrow> bool" where
  "capital_of u l =
     ((((65::nat) \<le> of_char u \<and> (of_char u :: nat) \<le> 90) \<or>
       ((192::nat) \<le> of_char u \<and> (of_char u :: nat) \<le> 222 \<and> (of_char u :: nat) \<noteq> 215))
      \<and> (of_char l :: nat) = of_char u + 32)"

definition same_letter :: "char \<Rightarrow> char \<Rightarrow> bool" where
  "same_letter c d = (c = d \<or> capital_of c d \<or> capital_of d c)"

definition ci_equals :: "string \<Rightarrow> string \<Rightarrow> bool" where
  "ci_equals s q = list_all2 same_letter s q"

definition ci_contains :: "string \<Rightarrow> string \<Rightarrow> bool" where
  "ci_contains s q = (\<exists>before mid after. s = before @ mid @ after \<and> ci_equals mid q)"

definition ci_starts :: "string \<Rightarrow> string \<Rightarrow> bool" where
  "ci_starts s q = (\<exists>mid after. s = mid @ after \<and> ci_equals mid q)"


text \<open>
  The rank the comparator of \<open>matchedItems\<close> sorts by: 0 for a trigger that is the
  keyword, 1 for another trigger that begins with it, 2 for the rest.
\<close>

definition rank :: "string \<Rightarrow> ListItem \<Rightarrow> nat" where
  "rank k e =
     (if toLowerCase (trigger e) = k then 0
      else if startsWith (toLowerCase (trigger e)) k then 1 else 2)"

text \<open>
  The candidate list of the search component, and the state of browsing it: the keyboard
  is listened to and the selected index is 0 on an empty list, within the list otherwise.
\<close>

definition candidates :: "search \<Rightarrow> ListItem list" where
  "candidates s = matchedItems (listItems s) (searchKeyword s)"

definition browsing :: "search \<Rightarrow> bool" where
  "browsing s =
     (keydownListener s \<and>
      (if candidates s = [] then selectedIndex s = 0
       else 0 \<le> selectedIndex s \<and> selectedIndex s \<le> int (length (candidates s)) - 1))"

text \<open>
  The two shapes an import accepts, with the sequence each carries: an object whose
  \<open>data\<close> is a sequence, or a bare sequence.
\<close>

definition accepted :: "json \<Rightarrow> ListItem list \<Rightarrow> bool" where
  "accepted j xs =
     ((\<exists>kvs. j = JObject kvs \<and> map_of kvs ''data'' = Some (JArray xs)) \<or> j = JArray xs)"

text \<open>
  A payload of the pattern \<open>^wj\s+(.+)$\<close> with free text \<open>t\<close>: the keyword, white space,
  then a non-empty text without line terminator.
\<close>

definition matches_wj :: "string \<Rightarrow> string \<Rightarrow> bool" where
  "matches_wj p t =
     (\<exists>w. p = ''wj'' @ w @ t \<and> w \<noteq> [] \<and> (\<forall>c\<in>set w. isSpace c) \<and>
          t \<noteq> [] \<and> (\<forall>c\<in>set t. \<not> isLineTerminator c))"

section \<open>String primitives against their list-theoretic meaning\<close>

lemma startsWith_prefix: "startsWith s k = prefix k s"
  by (induction s k rule: startsWith.induct) auto

lemma includes_sublist: "includes' s k = sublist k s"
proof (induction s)
  case Nil
  show ?case by simp
next
  case (Cons c cs)
  show ?case
    by (simp only: includes'.simps Cons.IH startsWith_prefix sublist_Cons_right)
qed

text \<open>Lower-casing sends two characters to the same one exactly when they are the same letter.\<close>

lemma lowerChar_code:
  "lowerChar c =
     char_of (if (65 \<le> (of_char c :: nat) \<and> (of_char c :: nat) \<le> 90) \<or>
                 (192 \<le> (of_char c :: nat) \<and> (of_char c :: nat) \<le> 222 \<and> (of_char c :: nat) \<noteq> 215)
              then (of_char c :: nat) + 32 else of_char c)"
  by (simp add: lowerChar_def Let_def)

lemma lowerChar_same_letter: "lowerChar c = lowerChar d \<longleftrightarrow> same_letter c d"
proof -
  have c: "(of_char c :: nat) < 256" and d: "(of_char d :: nat) < 256" by simp_all
  have eq: "c = d \<longleftrightarrow> (of_char c :: nat) = of_char d" by simp
  show ?thesis
    unfolding lowerChar_code same_letter_def capital_of_def eq char_of_eq_iff
    using c d by (auto simp add: take_bit_nat_eq_self)
qed

lemma toLowerCase_ci_equals: "toLowerCase s = toLowerCase q \<longleftrightarrow> ci_equals s q"
  unfolding toLowerCase_def ci_equals_def
proof (induction s arbitrary: q)
  case Nil
  show ?case by auto
next
  case (Cons c s)
  show ?case by (cases q) (simp_all add: Cons.IH lowerChar_same_letter)
qed

lemma includes_ci_contains: "includes' (toLowerCase s) (toLowerCase q) = ci_contains s q"
proof
  assume "includes' (toLowerCase s) (toLowerCase q)"
  then obtain before after where "toLowerCase s = before @ toLowerCase q @ after"
    by (auto simp add: includes_sublist sublist_def)
  then obtain b m a where "s = b @ m @ a" "toLowerCase m = toLowerCase q"
    unfolding toLowerCase_def by (auto simp add: map_eq_append_conv append_eq_map_conv)
  then show "ci_contains s q"
    unfolding ci_contains_def toLowerCase_ci_equals by blast
next
  assume "ci_contains s q"
  then obtain b m a where "s = b @ m @ a" "toLowerCase m = toLowerCase q"
    unfolding ci_contains_def toLowerCase_ci_equals by blast
  then have "toLowerCase s = toLowerCase b @ toLowerCase q @ toLowerCase a"
    by (simp add: toLowerCase_def)
  then show "includes' (toLowerCase s) (toLowerCase q)"
    by (auto simp add: includes_sublist sublist_def)
qed

lemma startsWith_ci_starts: "startsWith (toLowerCase s) (toLowerCase q) = ci_starts s q"
proof
  assume "startsWith (toLowerCase s) (toLowerCase q)"
  then obtain after where "toLowerCase s = toLowerCase q @ after"
    by (auto simp add: startsWith_prefix prefix_def)
  then obtain m a where "s = m @ a" "toLowerCase m = toLowerCase q"
    unfolding toLowerCase_def by (auto simp add: map_eq_append_conv)
  then show "ci_starts s q"
    unfolding ci_starts_def toLowerCase_ci_equals by blast
next
  assume "ci_starts s q"
  then obtain m a where "s = m @ a" "toLowerCase m = toLowerCase q"
    unfolding ci_starts_def toLowerCase_ci_equals by blast
  then have "toLowerCase s = toLowerCase q @ toLowerCase a"
    by (simp add: toLowerCase_def)
  then show "startsWith (toLowerCase s) (toLowerCase q)"
    by (simp add: startsWith_prefix)
qed


lemma ci_equals_starts: "ci_equals s q \<Longrightarrow> ci_starts s q"
  unfolding ci_starts_def by (intro exI [of _ s] exI [of _ "[]"]) simp

text \<open>The case-insensitive notions computed, for the evaluation of examples.\<close>

lemma ci_contains_code [code]: "ci_contains s q = includes' (toLowerCase s) (toLowerCase q)"
  by (simp add: includes_ci_contains)

lemma ci_starts_code [code]: "ci_starts s q = startsWith (toLowerCase s) (toLowerCase q)"
  by (simp add: startsWith_ci_starts)

section \<open>The stable sort\<close>












text \<open>
  The comparator orders by rank, so the sort is the library's stable sort by that key:
  any stable sorting procedure returns the same list.
\<close>

lemma compareItems_rank: "compareItems k a b \<le> 0 \<longleftrightarrow> rank k a \<le> rank k b"
  by (auto simp add: compareItems_def rank_def Let_def startsWith_prefix)

lemma insertBy_insort_key: "insertBy (compareItems k) x ys = insort_key (rank k) x ys"
  by (induction ys) (simp_all add: compareItems_rank)

lemma array_sort_sort_key: "array_sort (compareItems k) xs = sort_key (rank k) xs"
  by (induction xs) (simp_all add: array_sort_def insertBy_insort_key)

section \<open>Matching and ranking\<close>






section \<open>The search component after mount\<close>

lemma onMounted_created:
  "onMounted saved act created = Inr s \<Longrightarrow> selectedIndex s = 0 \<and> keydownListener s \<and> calls s = []"
  by (auto simp add: onMounted_def created_def loadData_def Let_def split: stored.splits if_splits)






section \<open>Moving the selection\<close>

lemma onMounted_browsing: "onMounted saved act created = Inr s \<Longrightarrow> browsing s"
  using onMounted_created [of saved act s] by (simp add: browsing_def)

lemma arrow_candidates:
  "k = ArrowDown \<or> k = ArrowUp \<Longrightarrow> candidates (dispatch (Keydown k) s) = candidates s"
  by (auto simp add: dispatch_def handleKeydown_def candidates_def)

lemma arrow_browsing:
  "k = ArrowDown \<or> k = ArrowUp \<Longrightarrow> browsing s \<Longrightarrow> browsing (dispatch (Keydown k) s)"
  by (auto simp add: dispatch_def handleKeydown_def candidates_def browsing_def split: if_splits)

lemma run_arrows:
  "set ks \<subseteq> {ArrowDown, ArrowUp} \<Longrightarrow> browsing s \<Longrightarrow>
     browsing (run (map Keydown ks) s) \<and> candidates (run (map Keydown ks) s) = candidates s"
proof (induction ks arbitrary: s)
  case Nil
  then show ?case by (simp add: run_def)
next
  case (Cons k ks)
  from Cons.prems have k: "k = ArrowDown \<or> k = ArrowUp" and ks: "set ks \<subseteq> {ArrowDown, ArrowUp}"
    by auto
  have "browsing (dispatch (Keydown k) s)" using k Cons.prems(2) by (rule arrow_browsing)
  from Cons.IH [OF ks this] arrow_candidates [OF k, of s]
  show ?case by (simp add: run_def)
qed

lemma arrowDown_min:
  "browsing s \<Longrightarrow> candidates s \<noteq> [] \<Longrightarrow>
     selectedIndex (dispatch (Keydown ArrowDown) s)
       = min (selectedIndex s + 1) (int (length (candidates s)) - 1)"
  by (auto simp add: dispatch_def handleKeydown_def candidates_def browsing_def)

lemma arrowUp_max:
  "browsing s \<Longrightarrow> selectedIndex (dispatch (Keydown ArrowUp) s) = max (selectedIndex s - 1) 0"
  by (auto simp add: dispatch_def handleKeydown_def candidates_def browsing_def split: if_splits)

text \<open>
  C4. After the mount and any sequence of move-down and move-up keys, the candidate list is
  the one of the mount; while it is not empty the selected index lies in
  \<open>[0, len - 1]\<close>, one more move-down gives \<open>min (index + 1) (len - 1)\<close> and one more
  move-up \<open>max (index - 1) 0\<close>; while it is empty the selected index is 0.
\<close>

theorem selectedIndex_clamped:
  assumes "onMounted saved act created = Inr s0"
    and "set ks \<subseteq> {ArrowDown, ArrowUp}"
  shows "let s = run (map Keydown ks) s0;
             n = int (length (candidates s))
         in candidates s = candidates s0
            \<and> (n \<noteq> 0 \<longrightarrow>
                 0 \<le> selectedIndex s \<and> selectedIndex s \<le> n - 1 \<and>
                 selectedIndex (dispatch (Keydown ArrowDown) s) = min (selectedIndex s + 1) (n - 1) \<and>
                 selectedIndex (dispatch (Keydown ArrowUp) s) = max (selectedIndex s - 1) 0)
            \<and> (n = 0 \<longrightarrow> selectedIndex s = 0)"
proof -
  have b: "browsing (run (map Keydown ks) s0)"
    and c: "candidates (run (map Keydown ks) s0) = candidates s0"
    using run_arrows [OF assms(2) onMounted_browsing [OF assms(1)]] by simp_all
  show ?thesis
    using b c arrowDown_min [OF b] arrowUp_max [OF b]
    by (simp add: Let_def browsing_def split: if_splits)
qed

text \<open>Two candidates, move-down twice: the index stops at 1.\<close>

theorem selectedIndex_clamped_witness:
  "onMounted
     (Collection
       [\<lparr>title = ''Mail'', subtitle = [], trigger = ''email'', data = ''a@b'', id' = ''1''\<rparr>,
        \<lparr>title = ''Dash'', subtitle = [], trigger = ''em'', data = ''--'', id' = ''2''\<rparr>])
     \<lparr>code = ''list-search'', payload = ''em''\<rparr> created
   = Inr \<lparr>listItems =
            [\<lparr>title = ''Mail'', subtitle = [], trigger = ''email'', data = ''a@b'', id' = ''1''\<rparr>,
             \<lparr>title = ''Dash'', subtitle = [], trigger = ''em'', data = ''--'', id' = ''2''\<rparr>],
          searchKeyword = ''em'', selectedIndex = 0, keydownListener = True,
          timeouts = [], calls = []\<rparr>
   \<and> set [ArrowDown, ArrowDown] \<subseteq> {ArrowDown, ArrowUp}
   \<and> selectedIndex (run (map Keydown [ArrowDown, ArrowDown])
        \<lparr>listItems =
            [\<lparr>title = ''Mail'', subtitle = [], trigger = ''email'', data = ''a@b'', id' = ''1''\<rparr>,
             \<lparr>title = ''Dash'', subtitle = [], trigger = ''em'', data = ''--'', id' = ''2''\<rparr>],
          searchKeyword = ''em'', selectedIndex = 0, keydownListener = True,
          timeouts = [], calls = []\<rparr>) = 1
   \<and> selectedIndex (dispatch (Keydown ArrowDown) (run (map Keydown [ArrowDown, ArrowDown])
        \<lparr>listItems =
            [\<lparr>title = ''Mail'', subtitle = [], trigger = ''email'', data = ''a@b'', id' = ''1''\<rparr>,
             \<lparr>title = ''Dash'', subtitle = [], trigger = ''em'', data = ''--'', id' = ''2''\<rparr>],
          searchKeyword = ''em'', selectedIndex = 0, keydownListener = True,
          timeouts = [], calls = []\<rparr>)) = 1"
proof -
  let ?xs = "[\<lparr>title = ''Mail'', subtitle = [], trigger = ''email'', data = ''a@b'', id' = ''1''\<rparr>,
              \<lparr>title = ''Dash'', subtitle = [], trigger = ''em'', data = ''--'', id' = ''2''\<rparr>]"
  let ?init = "\<lparr>listItems = ?xs, searchKeyword = ''em'', selectedIndex = 0, keydownListener = True,
              timeouts = [], calls = []\<rparr>"
  let ?s = "run (map Keydown [ArrowDown, ArrowDown]) ?init"
  have m: "onMounted (Collection ?xs) \<lparr>code = ''list-search'', payload = ''em''\<rparr> created = Inr ?init"
    by code_simp
  have k: "set [ArrowDown, ArrowDown] \<subseteq> {ArrowDown, ArrowUp}" by simp
  have n: "length (candidates ?s) = 2" by code_simp
  have i: "selectedIndex ?s = 1" by code_simp
  from selectedIndex_clamped [OF m k] n i
  have "selectedIndex (dispatch (Keydown ArrowDown) ?s) = 1"
    by (auto simp add: Let_def)
  with m k i show ?thesis by simp
qed

section \<open>The management component: update and add\<close>

lemma findIndex_None: "findIndex P xs = None \<longleftrightarrow> (\<forall>x\<in>set xs. \<not> P x)"
  by (induction xs) (auto split: option.splits)

lemma findIndex_Some:
  "findIndex P xs = Some i \<Longrightarrow> i < length xs \<and> P (xs ! i) \<and> (\<forall>j<i. \<not> P (xs ! j))"
proof (induction xs arbitrary: i)
  case Nil
  then show ?case by simp
next
  case (Cons x xs)
  show ?case
  proof (cases "P x")
    case True
    with Cons.prems show ?thesis by simp
  next
    case False
    with Cons.prems obtain k where k: "findIndex P xs = Some k" "i = Suc k"
      by (auto split: option.splits)
    from Cons.IH [OF k(1)] False k(2) show ?thesis
      by (auto simp add: nth_Cons split: nat.splits)
  qed
qed

lemma updated_item:
  "(e::ListItem)\<lparr>title := a, subtitle := b, trigger := c, data := d\<rparr>
     = \<lparr>title = a, subtitle = b, trigger = c, data = d, id' = id' e\<rparr>"
  by (cases e) simp

lemma map_id_update:
  "i < length xs \<Longrightarrow> id' (xs ! i) = id' y \<Longrightarrow> map id' (xs[i := y]) = map id' xs"
  by (simp add: map_update list_update_same_conv)

text \<open>
  C5, as the code has it. With an entry being edited: when no entry of the collection has
  its id, \<open>updateItem\<close> changes nothing and reports nothing (the state is the same,
  alerts included); otherwise the first entry with that id gets the four fields of the
  form, at its position and with its id, every other entry stays, and the collection is
  stored.
\<close>

theorem updateItem_spec:
  assumes "editingItem s = Some e"
  shows "(id' e \<notin> set (map id' (listItems s)) \<longrightarrow> updateItem s = s)
       \<and> (id' e \<in> set (map id' (listItems s)) \<longrightarrow>
            (\<exists>i<length (listItems s).
               id' (listItems s ! i) = id' e \<and> (\<forall>j<i. id' (listItems s ! j) \<noteq> id' e) \<and>
               listItems (updateItem s) =
                 (listItems s)[i := \<lparr>title = title (formData s), subtitle = subtitle (formData s),
                                      trigger = trigger (formData s), data = data (formData s),
                                      id' = id' e\<rparr>])
            \<and> map id' (listItems (updateItem s)) = map id' (listItems s)
            \<and> storage (updateItem s) = Collection (listItems (updateItem s))
            \<and> alerts (updateItem s) = alerts s)"
proof (cases "findIndex (\<lambda>item. id' item = id' e) (listItems s)")
  case None
  then have "id' e \<notin> set (map id' (listItems s))"
    by (auto simp add: findIndex_None)
  moreover have "updateItem s = s"
    using assms None by (simp add: updateItem_def)
  ultimately show ?thesis by simp
next
  case (Some i)
  note fi = findIndex_Some [OF Some]
  have mem: "id' e \<in> set (map id' (listItems s))"
    using fi by (metis (no_types, lifting) length_map nth_map nth_mem)
  have upd: "listItems (updateItem s) =
      (listItems s)[i := \<lparr>title = title (formData s), subtitle = subtitle (formData s),
                           trigger = trigger (formData s), data = data (formData s), id' = id' e\<rparr>]"
    using assms Some by (simp add: updateItem_def resetForm_def saveData_def updated_item)
  have sto: "storage (updateItem s) = Collection (listItems (updateItem s))"
    using assms Some by (simp add: updateItem_def resetForm_def saveData_def)
  have al: "alerts (updateItem s) = alerts s"
    using assms Some by (simp add: updateItem_def resetForm_def saveData_def)
  have ids: "map id' (listItems (updateItem s)) = map id' (listItems s)"
    unfolding upd using fi by (intro map_id_update) simp_all
  show ?thesis using mem fi upd sto al ids by blast
qed

text \<open>Editing the second of two entries: it is replaced where it stands.\<close>

theorem updateItem_spec_witness:
  "editingItem
     \<lparr>listItems =
        [\<lparr>title = ''Mail'', subtitle = [], trigger = ''email'', data = ''a@b'', id' = ''1''\<rparr>,
         \<lparr>title = ''Dash'', subtitle = [], trigger = ''em'', data = ''--'', id' = ''2''\<rparr>],
      searchKeyword = [], showAddForm = True,
      editingItem = Some \<lparr>title = ''Dash'', subtitle = [], trigger = ''em'', data = ''--'', id' = ''2''\<rparr>,
      formData = \<lparr>title = ''Long dash'', subtitle = ''typography'', trigger = ''emd'', data = ''---''\<rparr>,
      storage = Absent, alerts = [], downloads = []\<rparr>
   = Some \<lparr>title = ''Dash'', subtitle = [], trigger = ''em'', data = ''--'', id' = ''2''\<rparr>
   \<and> map id' (listItems (updateItem
     \<lparr>listItems =
        [\<lparr>title = ''Mail'', subtitle = [], trigger = ''email'', data = ''a@b'', id' = ''1''\<rparr>,
         \<lparr>title = ''Dash'', subtitle = [], trigger = ''em'', data = ''--'', id' = ''2''\<rparr>],
      searchKeyword = [], showAddForm = True,
      editingItem = Some \<lparr>title = ''Dash'', subtitle = [], trigger = ''em'', data = ''--'', id' = ''2''\<rparr>,
      formData = \<lparr>title = ''Long dash'', subtitle = ''typography'', trigger = ''emd'', data = ''---''\<rparr>,
      storage = Absent, alerts = [], downloads = []\<rparr>)) = [''1'', ''2'']
   \<and> listItems (updateItem
     \<lparr>listItems =
        [\<lparr>title = ''Mail'', subtitle = [], trigger = ''email'', data = ''a@b'', id' = ''1''\<rparr>,
         \<lparr>title = ''Dash'', subtitle = [], trigger = ''em'', data = ''--'', id' = ''2''\<rparr>],
      searchKeyword = [], showAddForm = True,
      editingItem = Some \<lparr>title = ''Dash'', subtitle = [], trigger = ''em'', data = ''--'', id' = ''2''\<rparr>,
      formData = \<lparr>title = ''Long dash'', subtitle = ''typography'', trigger = ''emd'', data = ''---''\<rparr>,
      storage = Absent, alerts = [], downloads = []\<rparr>)
     = [\<lparr>title = ''Mail'', subtitle = [], trigger = ''email'', data = ''a@b'', id' = ''1''\<rparr>,
        \<lparr>title = ''Long dash'', subtitle = ''typography'', trigger = ''emd'', data = ''---'', id' = ''2''\<rparr>]"
proof -
  let ?e = "\<lparr>title = ''Dash'', subtitle = [], trigger = ''em'', data = ''--'', id' = ''2''\<rparr>"
  let ?m = "\<lparr>listItems =
        [\<lparr>title = ''Mail'', subtitle = [], trigger = ''email'', data = ''a@b'', id' = ''1''\<rparr>, ?e],
      searchKeyword = [], showAddForm = True, editingItem = Some ?e,
      formData = \<lparr>title = ''Long dash'', subtitle = ''typography'', trigger = ''emd'', data = ''---''\<rparr>,
      storage = Absent, alerts = [], downloads = []\<rparr>"
  have ed: "editingItem ?m = Some ?e" by simp
  have mem: "id' ?e \<in> set (map id' (listItems ?m))" by simp
  from updateItem_spec [OF ed] mem
  have "map id' (listItems (updateItem ?m)) = map id' (listItems ?m)" by blast
  then have ids: "map id' (listItems (updateItem ?m)) = [''1'', ''2'']" by simp
  have "listItems (updateItem ?m)
     = [\<lparr>title = ''Mail'', subtitle = [], trigger = ''email'', data = ''a@b'', id' = ''1''\<rparr>,
        \<lparr>title = ''Long dash'', subtitle = ''typography'', trigger = ''emd'', data = ''---'', id' = ''2''\<rparr>]"
    by code_simp
  with ed ids show ?thesis by simp
qed

text \<open>
  The claim's first half fails: with an id that no entry has, \<open>updateItem\<close> returns the
  state it was given. No alert is raised, and the form stays open on the entry.
\<close>

theorem updateItem_absent_silent:
  "updateItem
     \<lparr>listItems =
        [\<lparr>title = ''Mail'', subtitle = [], trigger = ''email'', data = ''a@b'', id' = ''1''\<rparr>],
      searchKeyword = [], showAddForm = True,
      editingItem = Some \<lparr>title = ''Dash'', subtitle = [], trigger = ''em'', data = ''--'', id' = ''2''\<rparr>,
      formData = \<lparr>title = ''Long dash'', subtitle = [], trigger = ''emd'', data = ''---''\<rparr>,
      storage = Absent, alerts = [], downloads = []\<rparr>
   = \<lparr>listItems =
        [\<lparr>title = ''Mail'', subtitle = [], trigger = ''email'', data = ''a@b'', id' = ''1''\<rparr>],
      searchKeyword = [], showAddForm = True,
      editingItem = Some \<lparr>title = ''Dash'', subtitle = [], trigger = ''em'', data = ''--'', id' = ''2''\<rparr>,
      formData = \<lparr>title = ''Long dash'', subtitle = [], trigger = ''emd'', data = ''---''\<rparr>,
      storage = Absent, alerts = [], downloads = []\<rparr>"
  by code_simp

lemma toString_nonempty: "toString n \<noteq> []"
  by (subst toString.simps) simp

lemma digit_inj:
  "m < 10 \<Longrightarrow> n < 10 \<Longrightarrow> (char_of (48 + m) :: char) = char_of (48 + n) \<Longrightarrow> m = (n::nat)"
  by (simp add: char_of_eq_iff take_bit_nat_eq_self)

text \<open>Different clock readings give different ids.\<close>

lemma toString_inj: "toString m = toString n \<Longrightarrow> m = n"
proof (induction m arbitrary: n rule: toString.induct)
  case (1 m)
  show ?case
  proof (cases "m < 10")
    case True
    show ?thesis
    proof (cases "n < 10")
      case n: True
      from "1.prems" True n have "(char_of (48 + m) :: char) = char_of (48 + n)"
        by (simp add: toString.simps [of m] toString.simps [of n])
      with True n show ?thesis by (rule digit_inj)
    next
      case n: False
      from "1.prems" True n toString_nonempty [of "n div 10"] show ?thesis
        by (auto simp add: toString.simps [of m] toString.simps [of n])
    qed
  next
    case False
    show ?thesis
    proof (cases "n < 10")
      case n: True
      from "1.prems" False n toString_nonempty [of "m div 10"] show ?thesis
        by (auto simp add: toString.simps [of m] toString.simps [of n])
    next
      case n: False
      from "1.prems" False n have e: "toString (m div 10) = toString (n div 10)"
        and d: "(char_of (48 + m mod 10) :: char) = char_of (48 + n mod 10)"
        by (simp_all add: toString.simps [of m] toString.simps [of n])
      from "1.IH" [OF False e] have "m div 10 = n div 10" .
      moreover from d have "m mod 10 = n mod 10" by (intro digit_inj) simp_all
      ultimately show ?thesis by (metis div_mult_mod_eq)
    qed
  qed
qed

text \<open>
  C6, as the code has it. With an empty title or trigger \<open>addItem\<close> raises the alert and
  leaves collection and storage as they are. Otherwise it appends, at the end, the entry of
  the form's fields whose id is the decimal text of the clock's milliseconds, and stores the
  collection; the ids stay distinct when they were and no entry already has that text as id.
  Only the same clock reading gives the same id.
\<close>

theorem addItem_spec:
  "(title (formData s) = [] \<or> trigger (formData s) = [] \<longrightarrow>
      listItems (addItem now s) = listItems s \<and> storage (addItem now s) = storage s \<and>
      alerts (addItem now s) = alerts s @ [RequiredFieldsEmpty])
   \<and> (title (formData s) \<noteq> [] \<and> trigger (formData s) \<noteq> [] \<longrightarrow>
      listItems (addItem now s) =
        listItems s @ [\<lparr>title = title (formData s), subtitle = subtitle (formData s),
                         trigger = trigger (formData s), data = data (formData s),
                         id' = toString now\<rparr>] \<and>
      storage (addItem now s) = Collection (listItems (addItem now s)) \<and>
      alerts (addItem now s) = alerts s \<and>
      (distinct (map id' (listItems s)) \<and> toString now \<notin> set (map id' (listItems s)) \<longrightarrow>
         distinct (map id' (listItems (addItem now s)))))
   \<and> (\<forall>earlier. toString earlier = toString now \<longrightarrow> earlier = now)"
  by (auto simp add: addItem_def Let_def resetForm_def saveData_def dest: toString_inj)

text \<open>Adding at clock 6 to a collection whose only id is \<open>5\<close>.\<close>

theorem addItem_spec_witness:
  "title (formData
     \<lparr>listItems = [\<lparr>title = ''Mail'', subtitle = [], trigger = ''email'', data = ''a@b'', id' = ''5''\<rparr>],
      searchKeyword = [], showAddForm = True, editingItem = None,
      formData = \<lparr>title = ''Dash'', subtitle = [], trigger = ''em'', data = ''--''\<rparr>,
      storage = Absent, alerts = [], downloads = []\<rparr>) \<noteq> []
   \<and> trigger (formData
     \<lparr>listItems = [\<lparr>title = ''Mail'', subtitle = [], trigger = ''email'', data = ''a@b'', id' = ''5''\<rparr>],
      searchKeyword = [], showAddForm = True, editingItem = None,
      formData = \<lparr>title = ''Dash'', subtitle = [], trigger = ''em'', data = ''--''\<rparr>,
      storage = Absent, alerts = [], downloads = []\<rparr>) \<noteq> []
   \<and> listItems (addItem 6
     \<lparr>listItems = [\<lparr>title = ''Mail'', subtitle = [], trigger = ''email'', data = ''a@b'', id' = ''5''\<rparr>],
      searchKeyword = [], showAddForm = True, editingItem = None,
      formData = \<lparr>title = ''Dash'', subtitle = [], trigger = ''em'', data = ''--''\<rparr>,
      storage = Absent, alerts = [], downloads = []\<rparr>)
     = [\<lparr>title = ''Mail'', subtitle = [], trigger = ''email'', data = ''a@b'', id' = ''5''\<rparr>,
        \<lparr>title = ''Dash'', subtitle = [], trigger = ''em'', data = ''--'', id' = ''6''\<rparr>]
   \<and> distinct (map id' (listItems (addItem 6
     \<lparr>listItems = [\<lparr>title = ''Mail'', subtitle = [], trigger = ''email'', data = ''a@b'', id' = ''5''\<rparr>],
      searchKeyword = [], showAddForm = True, editingItem = None,
      formData = \<lparr>title = ''Dash'', subtitle = [], trigger = ''em'', data = ''--''\<rparr>,
      storage = Absent, alerts = [], downloads = []\<rparr>)))"
proof -
  let ?m = "\<lparr>listItems = [\<lparr>title = ''Mail'', subtitle = [], trigger = ''email'', data = ''a@b'', id' = ''5''\<rparr>],
      searchKeyword = [], showAddForm = True, editingItem = None,
      formData = \<lparr>title = ''Dash'', subtitle = [], trigger = ''em'', data = ''--''\<rparr>,
      storage = Absent, alerts = [], downloads = []\<rparr>"
  have six: "toString 6 = ''6''" by code_simp
  have f: "title (formData ?m) \<noteq> [] \<and> trigger (formData ?m) \<noteq> []" by simp
  have d: "distinct (map id' (listItems ?m)) \<and> toString 6 \<notin> set (map id' (listItems ?m))"
    by (simp add: six)
  from addItem_spec [of ?m 6] f d
  have "listItems (addItem 6 ?m) =
          listItems ?m @ [\<lparr>title = title (formData ?m), subtitle = subtitle (formData ?m),
                           trigger = trigger (formData ?m), data = data (formData ?m),
                           id' = toString 6\<rparr>]
        \<and> distinct (map id' (listItems (addItem 6 ?m)))"
    by blast
  with f show ?thesis by (simp add: six)
qed

text \<open>
  The claim's uniqueness fails: the id is the clock's reading and is not compared with the
  ids in the collection. Adding at clock 5 to a collection that has the id \<open>5\<close> gives two
  entries with that id.
\<close>

theorem addItem_duplicate_id:
  "distinct (map id'
     [\<lparr>title = ''Mail'', subtitle = [], trigger = ''email'', data = ''a@b'', id' = ''5''\<rparr>])
   \<and> map id' (listItems (addItem 5
     \<lparr>listItems = [\<lparr>title = ''Mail'', subtitle = [], trigger = ''email'', data = ''a@b'', id' = ''5''\<rparr>],
      searchKeyword = [], showAddForm = True, editingItem = None,
      formData = \<lparr>title = ''Dash'', subtitle = [], trigger = ''em'', data = ''--''\<rparr>,
      storage = Absent, alerts = [], downloads = []\<rparr>)) = [''5'', ''5'']"
  by code_simp

section \<open>The management component: export, import and the list filter\<close>

text \<open>
  C7. The file \<open>exportData\<close> downloads is the snapshot of the collection, and the export
  leaves collection and storage as they are, whether it succeeds or not. Importing that
  snapshot (the dialog confirmed) into any state makes the collection, and the stored
  collection, the exported one, entry for entry and in order.
\<close>

theorem export_import_roundtrip:
  "listItems (exportData isoTime domOk s) = listItems s
   \<and> storage (exportData isoTime domOk s) = storage s
   \<and> map snd (downloads (exportData isoTime True s))
       = map snd (downloads s) @ [snapshot isoTime (listItems s)]
   \<and> listItems (importData (Some (snapshot isoTime (listItems s))) True s') = listItems s
   \<and> storage (importData (Some (snapshot isoTime (listItems s))) True s') = Collection (listItems s)"
  by (simp add: exportData_def importData_def snapshot_def dataToImport_def saveData_def)

lemma dataToImport_accepted: "dataToImport j = Some xs \<longleftrightarrow> accepted j xs"
  by (cases j) (auto simp add: dataToImport_def accepted_def split: option.splits json.splits)

text \<open>
  C8. A confirmed import of a file of one of the two shapes makes its sequence the
  collection, and the stored collection. A file of no such shape leaves collection and
  storage as they are and raises one of the two format alerts; so does a file that is not
  JSON.
\<close>

theorem importData_shapes:
  "(accepted j xs \<longrightarrow>
      listItems (importData (Some j) True s) = xs \<and>
      storage (importData (Some j) True s) = Collection xs)
   \<and> ((\<forall>ys. \<not> accepted j ys) \<longrightarrow>
      listItems (importData (Some j) True s) = listItems s \<and>
      storage (importData (Some j) True s) = storage s \<and>
      (alerts (importData (Some j) True s) = alerts s @ [WrongFormat] \<or>
       alerts (importData (Some j) True s) = alerts s @ [ImportFailed]))
   \<and> importData None c s = s\<lparr>alerts := alerts s @ [ImportFailed]\<rparr>"
proof (intro conjI impI)
  assume a: "accepted j xs"
  then have "j \<noteq> JNull" by (auto simp add: accepted_def)
  moreover have "dataToImport j = Some xs" using a by (simp add: dataToImport_accepted)
  ultimately show "listItems (importData (Some j) True s) = xs"
    and "storage (importData (Some j) True s) = Collection xs"
    by (simp_all add: importData_def saveData_def)
next
  assume n: "\<forall>ys. \<not> accepted j ys"
  then have d: "dataToImport j = None"
    by (cases "dataToImport j") (auto simp add: dataToImport_accepted)
  then show "listItems (importData (Some j) True s) = listItems s"
    and "storage (importData (Some j) True s) = storage s"
    and "alerts (importData (Some j) True s) = alerts s @ [WrongFormat] \<or>
       alerts (importData (Some j) True s) = alerts s @ [ImportFailed]"
    by (simp_all add: importData_def)
next
  show "importData None c s = s\<lparr>alerts := alerts s @ [ImportFailed]\<rparr>"
    by (simp add: importData_def)
qed

text \<open>
  A versioned file with one entry replaces a collection of another entry; a file that is
  a text leaves it.
\<close>

theorem importData_shapes_witness:
  "accepted
     (JObject [(''version'', JString ''1.0''),
               (''data'', JArray [\<lparr>title = ''A'', subtitle = [], trigger = ''a'', data = [], id' = ''1''\<rparr>])])
     [\<lparr>title = ''A'', subtitle = [], trigger = ''a'', data = [], id' = ''1''\<rparr>]
   \<and> listItems (importData
        (Some (JObject [(''version'', JString ''1.0''),
               (''data'', JArray [\<lparr>title = ''A'', subtitle = [], trigger = ''a'', data = [], id' = ''1''\<rparr>])]))
        True
        \<lparr>listItems = [\<lparr>title = ''Dash'', subtitle = [], trigger = ''em'', data = ''--'', id' = ''2''\<rparr>],
         searchKeyword = [], showAddForm = False, editingItem = None,
         formData = \<lparr>title = [], subtitle = [], trigger = [], data = []\<rparr>,
         storage = Absent, alerts = [], downloads = []\<rparr>)
     = [\<lparr>title = ''A'', subtitle = [], trigger = ''a'', data = [], id' = ''1''\<rparr>]
   \<and> (\<forall>ys. \<not> accepted (JString ''entries'') ys)
   \<and> listItems (importData (Some (JString ''entries'')) True
        \<lparr>listItems = [\<lparr>title = ''Dash'', subtitle = [], trigger = ''em'', data = ''--'', id' = ''2''\<rparr>],
         searchKeyword = [], showAddForm = False, editingItem = None,
         formData = \<lparr>title = [], subtitle = [], trigger = [], data = []\<rparr>,
         storage = Absent, alerts = [], downloads = []\<rparr>)
     = [\<lparr>title = ''Dash'', subtitle = [], trigger = ''em'', data = ''--'', id' = ''2''\<rparr>]"
proof -
  let ?a = "\<lparr>title = ''A'', subtitle = [], trigger = ''a'', data = [], id' = ''1''\<rparr>"
  let ?file = "JObject [(''version'', JString ''1.0''), (''data'', JArray [?a])]"
  let ?m = "\<lparr>listItems = [\<lparr>title = ''Dash'', subtitle = [], trigger = ''em'', data = ''--'', id' = ''2''\<rparr>],
         searchKeyword = [], showAddForm = False, editingItem = None,
         formData = \<lparr>title = [], subtitle = [], trigger = [], data = []\<rparr>,
         storage = Absent, alerts = [], downloads = []\<rparr>"
  have a: "accepted ?file [?a]" by (simp add: accepted_def)
  have n: "\<forall>ys. \<not> accepted (JString ''entries'') ys" by (simp add: accepted_def)
  from importData_shapes [of ?file "[?a]" ?m] a
  have r1: "listItems (importData (Some ?file) True ?m) = [?a]" by blast
  from importData_shapes [of "JString ''entries''" "[]" ?m] n
  have r2: "listItems (importData (Some (JString ''entries'')) True ?m) = listItems ?m" by blast
  from a n r1 r2 show ?thesis by simp
qed

section \<open>The handler of \<open>onPluginEnter\<close>\<close>

lemma backtrack_Some:
  "backtrack n rest = Some t \<Longrightarrow> \<exists>k. 1 \<le> k \<and> k \<le> n \<and> t = drop k rest \<and> dotPlusToEnd t"
proof (induction n)
  case 0
  then show ?case by simp
next
  case (Suc n)
  show ?case
  proof (cases "dotPlusToEnd (drop (Suc n) rest)")
    case True
    with Suc.prems have "t = drop (Suc n) rest" by simp
    with True show ?thesis by (intro exI [of _ "Suc n"]) simp
  next
    case False
    with Suc.prems have "backtrack n rest = Some t" by simp
    from Suc.IH [OF this] obtain k where "1 \<le> k" "k \<le> n" "t = drop k rest" "dotPlusToEnd t"
      by blast
    then show ?thesis by (intro exI [of _ k]) simp
  qed
qed

lemma backtrack_finds:
  "1 \<le> k \<Longrightarrow> k \<le> n \<Longrightarrow> dotPlusToEnd (drop k rest) \<Longrightarrow>
     \<exists>k'. k \<le> k' \<and> k' \<le> n \<and> backtrack n rest = Some (drop k' rest)"
proof (induction n)
  case 0
  then show ?case by simp
next
  case (Suc n)
  show ?case
  proof (cases "dotPlusToEnd (drop (Suc n) rest)")
    case True
    then have "backtrack (Suc n) rest = Some (drop (Suc n) rest)" by simp
    with Suc.prems(2) show ?thesis by blast
  next
    case False
    with Suc.prems have "k \<le> n" by (cases "k = Suc n") auto
    from Suc.IH [OF Suc.prems(1) this Suc.prems(3)] False show ?thesis
      by (auto intro: le_SucI)
  qed
qed

lemma dropWhile_drop:
  "j \<le> length (takeWhile P xs) \<Longrightarrow> dropWhile P (drop j xs) = dropWhile P xs"
  by (induction xs arbitrary: j) (auto simp add: drop_Cons split: nat.splits if_splits)

lemma take_takeWhile_all:
  "k \<le> length (takeWhile P xs) \<Longrightarrow> \<forall>c\<in>set (take k xs). P c"
  by (induction xs arbitrary: k) (auto simp add: take_Cons split: nat.splits if_splits)

lemma trim_drop: "j \<le> length (takeWhile isSpace t) \<Longrightarrow> trim (drop j t) = trim t"
  by (simp add: trim_def dropWhile_drop)

text \<open>What \<open>match\<close> returns is a free text of the pattern.\<close>

lemma match_wj_sound: "match_wj p = Some t \<Longrightarrow> matches_wj p t"
proof -
  assume m: "match_wj p = Some t"
  then have sw: "startsWith p ''wj''" by (auto simp add: match_wj_def split: if_splits)
  then obtain rest where p: "p = ''wj'' @ rest" by (auto simp add: startsWith_prefix prefix_def)
  from m sw have "backtrack (length (takeWhile isSpace rest)) rest = Some t"
    by (simp add: match_wj_def p)
  from backtrack_Some [OF this] obtain k where
    k: "1 \<le> k" "k \<le> length (takeWhile isSpace rest)" "t = drop k rest" "dotPlusToEnd t"
    by blast
  have sp: "\<forall>c\<in>set (take k rest). isSpace c"
    using k(2) by (rule take_takeWhile_all)
  have "k \<le> length rest"
    using k(2) length_takeWhile_le [of isSpace rest] by simp
  then have ne: "take k rest \<noteq> []" using k(1) by (cases rest) auto
  have "p = ''wj'' @ take k rest @ t" using p k(3) by simp
  with sp ne k(4) show ?thesis
    unfolding matches_wj_def dotPlusToEnd_def list_all_iff by blast
qed

text \<open>
  Every free text of the pattern differs from the one \<open>match\<close> returns by leading white
  space only, which \<open>trim\<close> removes.
\<close>

lemma match_wj_complete:
  assumes "matches_wj p t"
  shows "\<exists>t0. match_wj p = Some t0 \<and> t0 \<noteq> [] \<and> trim t0 = trim t"
proof -
  from assms obtain w where w: "p = ''wj'' @ w @ t" "w \<noteq> []" "\<forall>c\<in>set w. isSpace c"
    "t \<noteq> []" "\<forall>c\<in>set t. \<not> isLineTerminator c"
    unfolding matches_wj_def by blast
  have sw: "startsWith p ''wj''" by (simp add: w(1))
  have tw: "takeWhile isSpace (w @ t) = w @ takeWhile isSpace t"
    using w(3) by (simp add: takeWhile_append2)
  have m: "match_wj p = backtrack (length w + length (takeWhile isSpace t)) (w @ t)"
    using sw by (simp add: match_wj_def w(1) tw)
  have "dotPlusToEnd (drop (length w) (w @ t))"
    using w(4,5) by (simp add: dotPlusToEnd_def list_all_iff)
  moreover have "1 \<le> length w" using w(2) by (cases w) auto
  ultimately obtain k' where k': "length w \<le> k'" "k' \<le> length w + length (takeWhile isSpace t)"
    "backtrack (length w + length (takeWhile isSpace t)) (w @ t) = Some (drop k' (w @ t))"
    using backtrack_finds [of "length w" "length w + length (takeWhile isSpace t)" "w @ t"] by auto
  have d: "drop k' (w @ t) = drop (k' - length w) t" using k'(1) by simp
  have "trim (drop (k' - length w) t) = trim t"
    by (rule trim_drop) (use k' in auto)
  moreover have "drop k' (w @ t) \<noteq> []"
    using backtrack_Some [OF k'(3)] by (auto simp add: dotPlusToEnd_def)
  ultimately show ?thesis using m k'(3) d by simp
qed

text \<open>
  C9, as the code has it. On activation with the search code: when the payload is \<open>wj\<close>,
  white space and a free text \<open>t\<close> on one line, the query handed on is \<open>t\<close> with the
  white space at both ends removed; when the payload is not of that pattern it is handed on
  verbatim. The route becomes the search code.
\<close>

theorem onPluginEnter_query:
  assumes "code act = ''list-search''"
  shows "(\<forall>t. matches_wj (payload act) t \<longrightarrow> payload (enterAction (onPluginEnter act s)) = trim t)
       \<and> ((\<forall>t. \<not> matches_wj (payload act) t) \<longrightarrow>
            payload (enterAction (onPluginEnter act s)) = payload act)
       \<and> route (onPluginEnter act s) = ''list-search''"
proof (intro conjI allI impI)
  fix t assume "matches_wj (payload act) t"
  from match_wj_complete [OF this] obtain t0 where
    t0: "match_wj (payload act) = Some t0" "t0 \<noteq> []" "trim t0 = trim t" by blast
  then have "payload act \<noteq> []" by (auto simp add: match_wj_def split: if_splits)
  with t0 assms show "payload (enterAction (onPluginEnter act s)) = trim t"
    by (simp add: onPluginEnter_def)
next
  assume n: "\<forall>t. \<not> matches_wj (payload act) t"
  have "match_wj (payload act) = None"
  proof (cases "match_wj (payload act)")
    case None
    then show ?thesis .
  next
    case (Some t)
    from match_wj_sound [OF this] n show ?thesis by blast
  qed
  then show "payload (enterAction (onPluginEnter act s)) = payload act"
    by (simp add: onPluginEnter_def)
next
  show "route (onPluginEnter act s) = ''list-search''"
    using assms by (simp add: onPluginEnter_def)
qed

text \<open>
  The payload of \<open>wj\<close>, a space, a no-break space, \<open>foo bar\<close> and a no-break space gives
  the query \<open>foo bar\<close>; the payload \<open>hello\<close> is kept.
\<close>

theorem onPluginEnter_query_witness:
  "code \<lparr>code = ''list-search'', payload = ''wj '' @ [CHR 0xA0] @ ''foo bar'' @ [CHR 0xA0]\<rparr>
     = ''list-search''
   \<and> matches_wj (''wj '' @ [CHR 0xA0] @ ''foo bar'' @ [CHR 0xA0]) (''foo bar'' @ [CHR 0xA0])
   \<and> payload (enterAction (onPluginEnter
        \<lparr>code = ''list-search'', payload = ''wj '' @ [CHR 0xA0] @ ''foo bar'' @ [CHR 0xA0]\<rparr>
        \<lparr>route = [], enterAction = \<lparr>code = [], payload = []\<rparr>\<rparr>)) = ''foo bar''
   \<and> (\<forall>t. \<not> matches_wj ''hello'' t)
   \<and> payload (enterAction (onPluginEnter \<lparr>code = ''list-search'', payload = ''hello''\<rparr>
        \<lparr>route = [], enterAction = \<lparr>code = [], payload = []\<rparr>\<rparr>)) = ''hello''"
proof -
  let ?app = "\<lparr>route = [], enterAction = \<lparr>code = [], payload = []\<rparr>\<rparr>"
  let ?p = "''wj '' @ [CHR 0xA0] @ ''foo bar'' @ [CHR 0xA0]"
  let ?t = "''foo bar'' @ [CHR 0xA0]"
  let ?a = "\<lparr>code = ''list-search'', payload = ?p\<rparr>"
  let ?b = "\<lparr>code = ''list-search'', payload = ''hello''\<rparr>"
  have "match_wj ?p = Some ?t" by code_simp
  then have m: "matches_wj ?p ?t" by (rule match_wj_sound)
  have tr: "trim ?t = ''foo bar''" by code_simp
  have none: "match_wj ''hello'' = None" by code_simp
  have n: "\<forall>t. \<not> matches_wj ''hello'' t"
    using match_wj_complete [of "''hello''"] none by auto
  have ca: "code ?a = ''list-search''" and cb: "code ?b = ''list-search''" by simp_all
  have pa: "payload ?a = ?p" by simp
  from onPluginEnter_query [OF ca, of ?app] m
  have r1: "payload (enterAction (onPluginEnter ?a ?app)) = trim ?t"
    unfolding pa by blast
  from onPluginEnter_query [OF cb, of ?app] n
  have r2: "payload (enterAction (onPluginEnter ?b ?app)) = ''hello''" by simp
  from ca m n r1 r2 tr show ?thesis by (simp only: simp_thms)
qed

text \<open>
  The claim fails where the free text ends in white space: the payload \<open>wj foo\<close> followed
  by a space has the free text \<open>foo\<close> followed by that space, and the query is \<open>foo\<close>.
\<close>

theorem onPluginEnter_trims:
  "match_wj ''wj foo '' = Some ''foo ''
   \<and> payload (enterAction (onPluginEnter \<lparr>code = ''list-search'', payload = ''wj foo ''\<rparr>
        \<lparr>route = [], enterAction = \<lparr>code = [], payload = []\<rparr>\<rparr>)) = ''foo''"
  by code_simp

section \<open>The list filter of the management component\<close>



end
